theory Spec2Isabelle
  imports
    Complex_Main
    "HOL-Library.Char_ord"
    "HOL-Library.List_Lexorder"
    "HOL-Library.Product_Lexorder"
    "HOL-Library.Multiset"
begin

section \<open>The rare-variant burden notebook\<close>

text \<open>
  The program is the notebook \<^verbatim>\<open>resources/BroadEWorkshop_RVanalysis.ipynb\<close>: a
  straight-line sequence of cells, each rebinding \<^verbatim>\<open>mt\<close>, \<^verbatim>\<open>gene_ht\<close> or
  \<^verbatim>\<open>burden_mt\<close> to the value of one Hail expression. Every cell is modelled as a
  function from the values it reads to the value it binds. The Hail operations the cells
  call (\<^verbatim>\<open>hl.agg.call_stats\<close>, \<^verbatim>\<open>filter_rows\<close>, \<^verbatim>\<open>hl.locus_interval\<close>, the
  interval join, \<^verbatim>\<open>group_rows_by\<close>/\<^verbatim>\<open>aggregate\<close>, \<^verbatim>\<open>hl.agg.count_where\<close>,
  \<^verbatim>\<open>hl.agg.sum\<close>, \<^verbatim>\<open>hl.hwe_normalized_pca\<close>, \<^verbatim>\<open>hl.linear_regression_rows\<close>,
  \<^verbatim>\<open>order_by\<close>) are library code; they are modelled by their documented behaviour in
  Hail 0.2, with the arguments and defaults the notebook's calls give them.

  Conventions of the model:
  \<^item> a missing value (Hail's NA) is \<open>None\<close>;
  \<^item> a Hail error aborts the run: a fallible cell returns \<open>hail_error + 'a\<close>;
  \<^item> \<^verbatim>\<open>float64\<close> values are modelled as real numbers. The filter compares
    \<^verbatim>\<open>AF[1] < 0.01\<close>, where \<^verbatim>\<open>AF[1]\<close> is the quotient of two 32-bit counts; for such
    counts the rounded quotient is below the double \<^verbatim>\<open>0.01\<close> exactly when the exact
    quotient is below \<open>1/100\<close>. The p-values that the last cell sorts are taken to be
    numbers; a not-a-number is outside the model.
\<close>

subsection \<open>Data\<close>

text \<open>A call is the list of its allele indices (its length is the ploidy).\<close>

type_synonym call = "nat list"

record sample =
  sample_id :: string
  caffeine_consumption :: "real option"
  is_female :: "bool option"

text \<open>
  A row of the matrix table read from \<^verbatim>\<open>resources/post_qc.mt\<close>: the row key
  (\<^verbatim>\<open>locus\<close>, \<^verbatim>\<open>alleles\<close>) and the entry field \<^verbatim>\<open>GT\<close>, one entry per column, in
  column order.
\<close>

record variant =
  contig :: string
  position :: int
  alleles :: "string list"
  GT :: "call option list"

record ('c, 'r) matrix_table =
  cols :: "'c list"
  rows :: "'r list"

datatype hail_error = AlleleIndexError | ArrayIndexError | NoVariantsError | EigenvalueError

subsection \<open>Cell: keep variants with allele frequency under 1 percent\<close>

text \<open>
  \<^verbatim>\<open>hl.agg.call_stats(mt.GT, mt.alleles)\<close> aggregates the non-missing calls of a row:
  \<^verbatim>\<open>AC[i]\<close> counts the occurrences of allele \<open>i\<close>, \<^verbatim>\<open>AN\<close> counts all called
  alleles, \<^verbatim>\<open>homozygote_count[i]\<close> counts the diploid calls with both alleles \<open>i\<close>, and
  \<^verbatim>\<open>AF\<close> is \<^verbatim>\<open>AC / AN\<close>, missing when \<^verbatim>\<open>AN\<close> is zero. A call naming an allele
  index outside \<^verbatim>\<open>alleles\<close> is an error.
\<close>

record call_stats_acc =
  acc_AC :: "nat list"
  acc_AN :: nat
  acc_hom :: "nat list"

record call_stats_result =
  AC :: "nat list"
  AF :: "real list option"
  AN :: nat
  homozygote_count :: "nat list"

definition call_stats_seq :: "call \<Rightarrow> call_stats_acc \<Rightarrow> hail_error + call_stats_acc" where
  "call_stats_seq c st =
     (if list_all (\<lambda>a. a < length (acc_AC st)) c then
        Inr \<lparr>acc_AC = fold (\<lambda>a ac. ac[a := ac ! a + 1]) c (acc_AC st),
             acc_AN = acc_AN st + length c,
             acc_hom = (case c of
                          [a, b] \<Rightarrow> if a = b then (acc_hom st)[a := acc_hom st ! a + 1]
                                    else acc_hom st
                        | _ \<Rightarrow> acc_hom st)\<rparr>
      else Inl AlleleIndexError)"

fun call_stats_agg :: "call option list \<Rightarrow> call_stats_acc \<Rightarrow> hail_error + call_stats_acc" where
  "call_stats_agg [] st = Inr st"
| "call_stats_agg (None # gs) st = call_stats_agg gs st"
| "call_stats_agg (Some c # gs) st =
     (case call_stats_seq c st of
        Inl e \<Rightarrow> Inl e
      | Inr st' \<Rightarrow> call_stats_agg gs st')"

definition call_stats :: "call option list \<Rightarrow> string list \<Rightarrow> hail_error + call_stats_result" where
  "call_stats gs als =
     (case call_stats_agg gs
             \<lparr>acc_AC = replicate (length als) 0, acc_AN = 0,
              acc_hom = replicate (length als) 0\<rparr> of
        Inl e \<Rightarrow> Inl e
      | Inr st \<Rightarrow>
          Inr \<lparr>AC = acc_AC st,
               AF = (if acc_AN st = 0 then None
                     else Some (map (\<lambda>k. real k / real (acc_AN st)) (acc_AC st))),
               AN = acc_AN st,
               homozygote_count = acc_hom st\<rparr>)"

text \<open>
  Indexing a missing array is missing; an index past the end of a present array is an
  error. A comparison with a missing operand is missing.
\<close>

definition array_index :: "'a list option \<Rightarrow> nat \<Rightarrow> hail_error + 'a option" where
  "array_index xs i =
     (case xs of
        None \<Rightarrow> Inr None
      | Some ys \<Rightarrow> if i < length ys then Inr (Some (ys ! i)) else Inl ArrayIndexError)"

definition lt_expr :: "real option \<Rightarrow> real \<Rightarrow> bool option" where
  "lt_expr x y = (case x of None \<Rightarrow> None | Some v \<Rightarrow> Some (v < y))"

text \<open>The row predicate \<^verbatim>\<open>hl.agg.call_stats(mt.GT, mt.alleles).AF[1] < 0.01\<close>.\<close>

definition af_below_one_percent :: "'a variant_scheme \<Rightarrow> hail_error + bool option" where
  "af_below_one_percent v =
     (case call_stats (GT v) (alleles v) of
        Inl e \<Rightarrow> Inl e
      | Inr cs \<Rightarrow>
          (case array_index (AF cs) 1 of
             Inl e \<Rightarrow> Inl e
           | Inr f \<Rightarrow> Inr (lt_expr f (1 / 100))))"

text \<open>
  \<^verbatim>\<open>filter_rows(expr)\<close> keeps the rows on which \<^verbatim>\<open>expr\<close> is true; a row on which it is
  false or missing is removed. The columns and the order of the kept rows are unchanged.
\<close>

fun filter_rows_seq :: "('r \<Rightarrow> hail_error + bool option) \<Rightarrow> 'r list \<Rightarrow> hail_error + 'r list" where
  "filter_rows_seq p [] = Inr []"
| "filter_rows_seq p (r # rs) =
     (case p r of
        Inl e \<Rightarrow> Inl e
      | Inr b \<Rightarrow>
          (case filter_rows_seq p rs of
             Inl e \<Rightarrow> Inl e
           | Inr rs' \<Rightarrow> Inr (if b = Some True then r # rs' else rs')))"

definition filter_rows ::
  "('r \<Rightarrow> hail_error + bool option) \<Rightarrow> ('c, 'r) matrix_table \<Rightarrow> hail_error + ('c, 'r) matrix_table" where
  "filter_rows p mt =
     (case filter_rows_seq p (rows mt) of
        Inl e \<Rightarrow> Inl e
      | Inr rs \<Rightarrow> Inr (mt\<lparr>rows := rs\<rparr>))"

text \<open>\<^verbatim>\<open>mt = mt.filter_rows(hl.agg.call_stats(mt.GT, mt.alleles).AF[1] < 0.01)\<close>\<close>

definition cell_filter_rare ::
  "(sample, variant) matrix_table \<Rightarrow> hail_error + (sample, variant) matrix_table" where
  "cell_filter_rare mt = filter_rows af_below_one_percent mt"

subsection \<open>Allele frequency as the specification words it\<close>

text \<open>
  The alleles observed at a variant are the alleles of its non-missing calls; the allele
  frequency is the share of the alternate allele (allele 1) among them, undefined when
  no allele was observed.
\<close>

definition observed_alleles :: "'a variant_scheme \<Rightarrow> nat list" where
  "observed_alleles v = concat (map (\<lambda>g. case g of None \<Rightarrow> [] | Some c \<Rightarrow> c) (GT v))"

definition allele_frequency :: "'a variant_scheme \<Rightarrow> real option" where
  "allele_frequency v =
     (if observed_alleles v = [] then None
      else Some (real (count_list (observed_alleles v) 1) / real (length (observed_alleles v))))"

text \<open>
  A row is well formed when it has a reference and an alternate allele and every call
  indexes into \<open>alleles\<close>; on such rows the aggregation raises no error.
\<close>

definition wf_variant :: "'a variant_scheme \<Rightarrow> bool" where
  "wf_variant v =
     (2 \<le> length (alleles v) \<and>
      list_all (\<lambda>a. a < length (alleles v)) (observed_alleles v))"

subsection \<open>Cells: the gene table and the interval join\<close>

text \<open>
  \<^verbatim>\<open>gene_ht = hl.import_table('resources/ensembl_gene_annotations.txt', impute=True)\<close>
  gives one row per line of the file, with the fields \<^verbatim>\<open>chromosome\<close>, \<^verbatim>\<open>start\<close>,
  \<^verbatim>\<open>end\<close> and \<^verbatim>\<open>gene_name\<close> (\<open>end\<close> is written \<open>end'\<close> here). The file is an
  input of the model.
\<close>

record gene_fields =
  gene_name :: string

record gene_row = gene_fields +
  chromosome :: string
  start :: int
  end' :: int

record locus_interval =
  interval_contig :: string
  interval_start :: int
  interval_end :: int
  includes_start :: bool
  includes_end :: bool

record interval_row = gene_fields +
  interval :: locus_interval

text \<open>
  \<^verbatim>\<open>hl.locus_interval(contig, start, end, includes_start=True, includes_end=False)\<close>
  builds the interval value. (Hail also checks the bounds against the reference genome;
  the reference genome is not part of the model, the table is taken to pass that check.)
\<close>

definition hl_locus_interval :: "string \<Rightarrow> int \<Rightarrow> int \<Rightarrow> bool \<Rightarrow> bool \<Rightarrow> locus_interval" where
  "hl_locus_interval c a b incl_a incl_b =
     \<lparr>interval_contig = c, interval_start = a, interval_end = b,
      includes_start = incl_a, includes_end = incl_b\<rparr>"

definition interval_contains :: "locus_interval \<Rightarrow> string \<Rightarrow> int \<Rightarrow> bool" where
  "interval_contains iv c p =
     (interval_contig iv = c \<and>
      (if includes_start iv then interval_start iv \<le> p else interval_start iv < p) \<and>
      (if includes_end iv then p \<le> interval_end iv else p < interval_end iv))"

text \<open>
  \<^verbatim>\<open>gene_ht = gene_ht.transmute(interval = hl.locus_interval(gene_ht.chromosome,
  gene_ht.start, gene_ht.end))\<close>: the call passes neither \<^verbatim>\<open>includes_start\<close> nor
  \<^verbatim>\<open>includes_end\<close>, so they take their defaults \<^verbatim>\<open>True\<close> and \<^verbatim>\<open>False\<close>.
\<close>

definition cell_transmute :: "gene_row list \<Rightarrow> interval_row list" where
  "cell_transmute gene_ht =
     map (\<lambda>r. \<lparr>gene_name = gene_name r,
                interval = hl_locus_interval (chromosome r) (start r) (end' r) True False\<rparr>)
       gene_ht"

text \<open>
  \<^verbatim>\<open>keyed_gene_table = gene_ht.key_by('interval')\<close> makes \<^verbatim>\<open>interval\<close> the key. The
  order in which the keyed table holds its rows plays no role below: which of several
  rows matching one locus a lookup returns is not fixed by the notebook, and is left to
  the parameter \<open>pick\<close> of the lookup.
\<close>

definition key_by_interval :: "interval_row list \<Rightarrow> interval_row list" where
  "key_by_interval gene_ht = gene_ht"

text \<open>
  \<^verbatim>\<open>keyed_gene_table[mt.locus]\<close>: the row of the table whose interval contains the
  locus; missing when no interval contains it.
\<close>

definition index_by_locus ::
  "(interval_row list \<Rightarrow> interval_row) \<Rightarrow> interval_row list \<Rightarrow> string \<Rightarrow> int \<Rightarrow> interval_row option" where
  "index_by_locus pick tbl c p =
     (case filter (\<lambda>r. interval_contains (interval r) c p) tbl of
        [] \<Rightarrow> None
      | m # ms \<Rightarrow> Some (pick (m # ms)))"


record gvariant = variant +
  gene :: "string option"

text \<open>\<^verbatim>\<open>mt = mt.annotate_rows(gene = keyed_gene_table[mt.locus].gene_name)\<close>\<close>

definition annotate_gene ::
  "(interval_row list \<Rightarrow> interval_row) \<Rightarrow> interval_row list \<Rightarrow> variant \<Rightarrow> gvariant" where
  "annotate_gene pick tbl v =
     \<lparr>contig = contig v, position = position v, alleles = alleles v, GT = GT v,
      gene = map_option gene_name (index_by_locus pick tbl (contig v) (position v))\<rparr>"

definition cell_annotate_gene ::
  "(interval_row list \<Rightarrow> interval_row) \<Rightarrow> interval_row list \<Rightarrow>
   (sample, variant) matrix_table \<Rightarrow> (sample, gvariant) matrix_table" where
  "cell_annotate_gene pick tbl mt =
     \<lparr>cols = cols mt, rows = map (annotate_gene pick tbl) (rows mt)\<rparr>"

subsection \<open>Cell: aggregate by gene\<close>

definition n_alt_alleles :: "call \<Rightarrow> nat" where
  "n_alt_alleles c = length (filter (\<lambda>a. a \<noteq> 0) c)"

text \<open>\<^verbatim>\<open>mt.GT.n_alt_alleles() > 0\<close>, missing on a missing call.\<close>

definition has_alt_allele :: "call option \<Rightarrow> bool option" where
  "has_alt_allele g = (case g of None \<Rightarrow> None | Some c \<Rightarrow> Some (0 < n_alt_alleles c))"

text \<open>\<^verbatim>\<open>hl.agg.count_where(expr)\<close> counts the records on which \<^verbatim>\<open>expr\<close> is true.\<close>

definition count_where :: "('a \<Rightarrow> bool option) \<Rightarrow> 'a list \<Rightarrow> nat" where
  "count_where p xs = fold (\<lambda>x n. if p x = Some True then n + 1 else n) xs 0"

record burden_row =
  gene_key :: "string option"
  n_variants :: "nat list"

text \<open>
  \<^verbatim>\<open>group_rows_by('gene')\<close> makes one group per distinct value of \<^verbatim>\<open>gene\<close>; the rows
  whose \<^verbatim>\<open>gene\<close> is missing form a group of their own, keyed by the missing value. The
  result holds one row per group, in key order with the missing key last.
\<close>

definition gene_rank :: "string option \<Rightarrow> bool \<times> string" where
  "gene_rank g = (case g of None \<Rightarrow> (True, []) | Some n \<Rightarrow> (False, n))"

definition group_keys :: "gvariant list \<Rightarrow> string option list" where
  "group_keys rs = sort_key gene_rank (remdups (map gene rs))"

definition group_rows_by_gene_aggregate ::
  "('c, gvariant) matrix_table \<Rightarrow> ('c, burden_row) matrix_table" where
  "group_rows_by_gene_aggregate mt =
     \<lparr>cols = cols mt,
      rows = map (\<lambda>k. \<lparr>gene_key = k,
                       n_variants =
                         map (\<lambda>j. count_where (\<lambda>v. has_alt_allele (GT v ! j))
                                    (filter (\<lambda>v. gene v = k) (rows mt)))
                           [0..<length (cols mt)]\<rparr>)
               (group_keys (rows mt))\<rparr>"

text \<open>
  \<^verbatim>\<open>burden_mt = mt.group_rows_by('gene').aggregate(n_variants =
  hl.agg.count_where(mt.GT.n_alt_alleles() > 0))\<close>, then
  \<^verbatim>\<open>burden_mt = burden_mt.filter_rows(hl.agg.sum(burden_mt.n_variants) > 0)\<close>.
\<close>

definition some_carrier :: "burden_row \<Rightarrow> hail_error + bool option" where
  "some_carrier b = Inr (Some (0 < sum_list (n_variants b)))"

definition cell_burden ::
  "('c, gvariant) matrix_table \<Rightarrow> hail_error + ('c, burden_row) matrix_table" where
  "cell_burden mt = filter_rows some_carrier (group_rows_by_gene_aggregate mt)"


subsection \<open>Cell: principal components\<close>








subsection \<open>Cell: one linear regression per gene\<close>










subsection \<open>Cell: order the results by p-value\<close>




subsection \<open>The notebook\<close>


subsection \<open>The burden count as the specification words it\<close>

text \<open>
  The number of variants assigned to gene \<open>k\<close> at which sample \<open>j\<close> has a call with at
  least one alternate allele; a missing call is never counted.
\<close>

definition carrier_count :: "('c, gvariant) matrix_table \<Rightarrow> string option \<Rightarrow> nat \<Rightarrow> nat" where
  "carrier_count mt k j =
     length (filter (\<lambda>v. gene v = k \<and>
                          (case GT v ! j of None \<Rightarrow> False | Some c \<Rightarrow> 0 < n_alt_alleles c))
               (rows mt))"

section \<open>Concrete tables\<close>

text \<open>
  The inputs at which the theorems below are instantiated. A variant with a carrier can
  only pass the 1 percent filter when more than 100 alleles were observed, so the tables
  have 51 or 100 diploid samples.
\<close>

definition samples :: "nat \<Rightarrow> sample list" where
  "samples n =
     map (\<lambda>i. \<lparr>sample_id = replicate (Suc i) CHR ''s'',
                caffeine_consumption = Some (real i), is_female = Some (even i)\<rparr>) [0..<n]"

definition hom_ref :: "call option" where
  "hom_ref = Some [0, 0]"

definition het :: "call option" where
  "het = Some [0, 1]"

definition gene_A :: gene_row where
  "gene_A = \<lparr>gene_name = ''GENE_A'', chromosome = ''1'', start = 1, end' = 1000\<rparr>"

definition gene_B :: gene_row where
  "gene_B = \<lparr>gene_name = ''GENE_B'', chromosome = ''1'', start = 4000, end' = 6000\<rparr>"

definition v100 :: variant where
  "v100 = \<lparr>contig = ''1'', position = 100, alleles = [''A'', ''T''],
            GT = replicate 99 hom_ref @ [het]\<rparr>"

definition v500 :: variant where
  "v500 = \<lparr>contig = ''1'', position = 500, alleles = [''G'', ''C''],
            GT = replicate 96 hom_ref @ replicate 4 het\<rparr>"

definition scenario_mt :: "(sample, variant) matrix_table" where
  "scenario_mt = \<lparr>cols = samples 100, rows = [v100, v500]\<rparr>"

text \<open>
  Fifty-one samples. The carrier variants have one heterozygous call, so their allele
  frequency is 1/102; \<open>v_boundary\<close> lies on the last position of \<open>gene_A\<close>, \<open>v_far\<close>
  in no gene, \<open>v_quiet\<close> has no carrier and \<open>v_nocall\<close> no call at all.
\<close>

definition v_carrier :: variant where
  "v_carrier = \<lparr>contig = ''1'', position = 100, alleles = [''A'', ''T''],
                 GT = replicate 50 hom_ref @ [het]\<rparr>"

definition v_quiet :: variant where
  "v_quiet = \<lparr>contig = ''1'', position = 5000, alleles = [''C'', ''G''],
               GT = replicate 51 hom_ref\<rparr>"



definition v_nocall :: variant where
  "v_nocall = \<lparr>contig = ''1'', position = 300, alleles = [''G'', ''A''],
                GT = replicate 51 None\<rparr>"



definition nocall_mt :: "(sample, variant) matrix_table" where
  "nocall_mt = \<lparr>cols = samples 51, rows = [v_nocall]\<rparr>"

definition two_gene_mt :: "(sample, gvariant) matrix_table" where
  "two_gene_mt =
     cell_annotate_gene hd (key_by_interval (cell_transmute [gene_A, gene_B]))
       \<lparr>cols = samples 51, rows = [v_carrier, v_quiet]\<rparr>"












section \<open>Properties of the cells\<close>

subsection \<open>The aggregation of \<^verbatim>\<open>call_stats\<close> counts alleles\<close>

lemma fold_count:
  "list_all (\<lambda>a. a < length ac) c \<Longrightarrow>
   length (fold (\<lambda>a ac. ac[a := ac ! a + 1]) c ac) = length ac \<and>
   (\<forall>i < length ac. fold (\<lambda>a ac. ac[a := ac ! a + 1]) c ac ! i = ac ! i + count_list c i)"
proof (induction c arbitrary: ac)
  case Nil
  then show ?case by simp
next
  case (Cons a c)
  let ?ac = "ac[a := ac ! a + 1]"
  from Cons.prems have a: "a < length ac" and rest: "list_all (\<lambda>a. a < length ?ac) c"
    by simp_all
  from Cons.IH [OF rest] a show ?case
    by (auto simp: nth_list_update)
qed

lemma call_stats_seq_counts:
  assumes "list_all (\<lambda>a. a < length (acc_AC st)) c"
  shows "\<exists>st'. call_stats_seq c st = Inr st' \<and>
           length (acc_AC st') = length (acc_AC st) \<and>
           acc_AN st' = acc_AN st + length c \<and>
           (\<forall>i < length (acc_AC st). acc_AC st' ! i = acc_AC st ! i + count_list c i)"
  using fold_count [OF assms] assms by (simp add: call_stats_seq_def)

lemma call_stats_agg_counts:
  "list_all (\<lambda>a. a < length (acc_AC st))
     (concat (map (\<lambda>g. case g of None \<Rightarrow> [] | Some c \<Rightarrow> c) gs)) \<Longrightarrow>
   \<exists>st'. call_stats_agg gs st = Inr st' \<and>
         length (acc_AC st') = length (acc_AC st) \<and>
         acc_AN st' = acc_AN st + length (concat (map (\<lambda>g. case g of None \<Rightarrow> [] | Some c \<Rightarrow> c) gs)) \<and>
         (\<forall>i < length (acc_AC st). acc_AC st' ! i =
            acc_AC st ! i + count_list (concat (map (\<lambda>g. case g of None \<Rightarrow> [] | Some c \<Rightarrow> c) gs)) i)"
proof (induction gs st rule: call_stats_agg.induct)
  case (1 st)
  then show ?case by simp
next
  case (2 gs st)
  then show ?case by simp
next
  case (3 c gs st)
  from "3.prems" have c: "list_all (\<lambda>a. a < length (acc_AC st)) c" by simp
  from call_stats_seq_counts [OF c] obtain st1 where
    s1: "call_stats_seq c st = Inr st1" and
    l1: "length (acc_AC st1) = length (acc_AC st)" and
    n1: "acc_AN st1 = acc_AN st + length c" and
    c1: "\<forall>i < length (acc_AC st). acc_AC st1 ! i = acc_AC st ! i + count_list c i"
    by blast
  from "3.prems" l1 have rest: "list_all (\<lambda>a. a < length (acc_AC st1))
     (concat (map (\<lambda>g. case g of None \<Rightarrow> [] | Some c \<Rightarrow> c) gs))" by simp
  from "3.IH" [OF s1 rest] s1 l1 n1 c1 show ?case
    by auto
qed


lemma af_below_one_percent_wf:
  assumes "wf_variant v"
  shows "af_below_one_percent v =
           Inr (case allele_frequency v of None \<Rightarrow> None | Some f \<Rightarrow> Some (f < 1 / 100))"
proof -
  let ?st0 = "\<lparr>acc_AC = replicate (length (alleles v)) 0, acc_AN = 0,
                acc_hom = replicate (length (alleles v)) 0\<rparr>"
  from assms have len: "2 \<le> length (alleles v)"
    and rng: "list_all (\<lambda>a. a < length (acc_AC ?st0)) (observed_alleles v)"
    by (simp_all add: wf_variant_def)
  from call_stats_agg_counts [of ?st0 "GT v"] rng obtain st' where
    agg: "call_stats_agg (GT v) ?st0 = Inr st'" and
    l: "length (acc_AC st') = length (alleles v)" and
    n: "acc_AN st' = length (observed_alleles v)" and
    c: "\<forall>i < length (alleles v). acc_AC st' ! i = count_list (observed_alleles v) i"
    by (auto simp: observed_alleles_def)
  from len c have c1: "acc_AC st' ! 1 = count_list (observed_alleles v) 1" by simp
  show ?thesis
    using agg l n c1 len
    by (simp add: af_below_one_percent_def call_stats_def array_index_def lt_expr_def
        allele_frequency_def)
qed

lemma filter_rows_seq_total:
  "\<forall>r \<in> set rs. p r = Inr (q r) \<Longrightarrow>
   filter_rows_seq p rs = Inr (filter (\<lambda>r. q r = Some True) rs)"
  by (induction rs) simp_all

subsection \<open>Counting and grouping\<close>

lemma fold_count_where:
  "fold (\<lambda>x n. if p x = Some True then n + 1 else n) xs k =
     k + length (filter (\<lambda>x. p x = Some True) xs)"
  by (induction xs arbitrary: k) simp_all

lemma count_where_filter:
  "count_where p xs = length (filter (\<lambda>x. p x = Some True) xs)"
  by (simp add: count_where_def fold_count_where)

lemma has_alt_allele_True:
  "(has_alt_allele g = Some True) = (\<exists>c. g = Some c \<and> 0 < n_alt_alleles c)"
  by (cases g) (simp_all add: has_alt_allele_def)

lemma set_group_keys: "set (group_keys rs) = gene ` set rs"
  by (simp add: group_keys_def)


lemma aggregate_row:
  assumes "b \<in> set (rows (group_rows_by_gene_aggregate mt))"
  shows "gene_key b \<in> gene ` set (rows mt) \<and>
         length (n_variants b) = length (cols mt) \<and>
         (\<forall>j < length (cols mt). n_variants b ! j =
            length (filter (\<lambda>v. gene v = gene_key b \<and>
                              (\<exists>c. GT v ! j = Some c \<and> 0 < n_alt_alleles c)) (rows mt)))"
proof -
  from assms obtain k where k: "k \<in> set (group_keys (rows mt))"
    and b: "b = \<lparr>gene_key = k,
                 n_variants = map (\<lambda>j. count_where (\<lambda>v. has_alt_allele (GT v ! j))
                                    (filter (\<lambda>v. gene v = k) (rows mt)))
                           [0..<length (cols mt)]\<rparr>"
    by (auto simp: group_rows_by_gene_aggregate_def)
  show ?thesis
    using k by (simp add: b set_group_keys count_where_filter has_alt_allele_True conj_commute)
qed


lemma filter_rows_total:
  assumes "\<forall>r \<in> set (rows mt). p r = Inr (q r)"
  shows "filter_rows p mt = Inr (mt\<lparr>rows := filter (\<lambda>r. q r = Some True) (rows mt)\<rparr>)"
  using filter_rows_seq_total [OF assms] by (simp add: filter_rows_def)

lemma cell_burden_eq:
  "cell_burden mt =
     Inr ((group_rows_by_gene_aggregate mt)
            \<lparr>rows := filter (\<lambda>b. 0 < sum_list (n_variants b))
                       (rows (group_rows_by_gene_aggregate mt))\<rparr>)"
  unfolding cell_burden_def
  by (subst filter_rows_total [where q = "\<lambda>b. Some (0 < sum_list (n_variants b))"])
     (simp_all add: some_carrier_def)

subsection \<open>The interval lookup\<close>






subsection \<open>The filter cell on well-formed rows\<close>

lemma cell_filter_rare_wf:
  assumes "\<forall>v \<in> set (rows mt). wf_variant v"
  shows "cell_filter_rare mt =
           Inr (mt\<lparr>rows := filter (\<lambda>v. case allele_frequency v of None \<Rightarrow> False
                                                                  | Some f \<Rightarrow> f < 1 / 100)
                               (rows mt)\<rparr>)"
proof -
  let ?q = "\<lambda>v::variant. case allele_frequency v of None \<Rightarrow> None | Some f \<Rightarrow> Some (f < 1 / 100)"
  from assms have "\<forall>v \<in> set (rows mt). af_below_one_percent v = Inr (?q v)"
    by (simp add: af_below_one_percent_wf)
  then have seq: "filter_rows_seq af_below_one_percent (rows mt) =
      Inr (filter (\<lambda>v. ?q v = Some True) (rows mt))"
    by (rule filter_rows_seq_total)
  have q: "\<And>v. (?q v = Some True) =
      (case allele_frequency v of None \<Rightarrow> False | Some f \<Rightarrow> f < 1 / 100)"
    by (simp split: option.splits)
  show ?thesis
    using seq by (simp add: cell_filter_rare_def filter_rows_def q)
qed

subsection \<open>Burden counts\<close>


lemma carrier_count_eq:
  "carrier_count mt k j =
     length (filter (\<lambda>v. gene v = k \<and> (\<exists>c. GT v ! j = Some c \<and> 0 < n_alt_alleles c)) (rows mt))"
proof -
  have "(\<lambda>v::gvariant. gene v = k \<and>
            (case GT v ! j of None \<Rightarrow> False | Some c \<Rightarrow> 0 < n_alt_alleles c)) =
        (\<lambda>v. gene v = k \<and> (\<exists>c. GT v ! j = Some c \<and> 0 < n_alt_alleles c))"
    by (auto split: option.splits)
  then show ?thesis by (simp only: carrier_count_def)
qed

lemma aggregate_key_unique:
  assumes "k \<in> gene ` set (rows mt)"
  shows "\<exists>!b. b \<in> set (rows (group_rows_by_gene_aggregate mt)) \<and> gene_key b = k"
proof -
  let ?row = "\<lambda>k. \<lparr>gene_key = k,
                 n_variants = map (\<lambda>j. count_where (\<lambda>v. has_alt_allele (GT v ! j))
                                    (filter (\<lambda>v. gene v = k) (rows mt)))
                           [0..<length (cols mt)]\<rparr>"
  have rows_eq: "set (rows (group_rows_by_gene_aggregate mt)) = ?row ` gene ` set (rows mt)"
    by (simp add: group_rows_by_gene_aggregate_def set_group_keys)
  show ?thesis
  proof (rule ex1I [of _ "?row k"])
    show "?row k \<in> set (rows (group_rows_by_gene_aggregate mt)) \<and> gene_key (?row k) = k"
      using assms unfolding rows_eq by (simp add: image_iff)
  next
    fix b
    assume "b \<in> set (rows (group_rows_by_gene_aggregate mt)) \<and> gene_key b = k"
    then show "b = ?row k" by (auto simp: rows_eq)
  qed
qed



subsection \<open>Ordering\<close>





subsection \<open>Shape of the principal components, and the matrix they are computed from\<close>










subsection \<open>The regression cell returns one row per gene of the burden matrix\<close>







subsection \<open>Facts about the concrete tables\<close>

lemma scenario_wf: "\<forall>v \<in> set (rows scenario_mt). wf_variant v"
  by code_simp

lemma af_v100: "allele_frequency v100 = Some (1 / 200)"
  by code_simp

lemma af_v500: "allele_frequency v500 = Some (4 / 200)"
  by code_simp

lemma two_gene_row:
  "\<lparr>gene_key = Some ''GENE_A'', n_variants = replicate 50 0 @ [1]\<rparr>
     \<in> set (rows (group_rows_by_gene_aggregate two_gene_mt))"
  by code_simp

lemma two_gene_cols: "50 < length (cols two_gene_mt)"
  by code_simp

lemma two_gene_count: "carrier_count two_gene_mt (Some ''GENE_A'') 50 = 1"
  by code_simp

lemma nocall_wf: "\<forall>u \<in> set (rows nocall_mt). wf_variant u"
  by code_simp

lemma nocall_unobserved: "observed_alleles v_nocall = []"
  by code_simp












section \<open>The claims\<close>

subsection \<open>VariantFilter\<close>

text \<open>
  C1. On a well-formed matrix table the filter cell returns, and the rows it returns are
  exactly the input rows whose allele frequency (occurrences of the alternate allele
  among the observed alleles) is defined and strictly below 0.01, in their input order;
  so every variant present after the filter has allele frequency below 0.01.
\<close>

theorem VariantFilter_keeps_exactly_rare:
  assumes "\<forall>v \<in> set (rows mt). wf_variant v"
  shows "\<exists>mt'. cell_filter_rare mt = Inr mt' \<and>
           cols mt' = cols mt \<and>
           rows mt' =
             filter (\<lambda>v. case allele_frequency v of None \<Rightarrow> False | Some f \<Rightarrow> f < 1 / 100)
               (rows mt) \<and>
           (\<forall>v. v \<in> set (rows mt') \<longleftrightarrow>
                v \<in> set (rows mt) \<and> (\<exists>f. allele_frequency v = Some f \<and> f < 1 / 100))"
proof -
  have "\<And>v::variant. (case allele_frequency v of None \<Rightarrow> False | Some f \<Rightarrow> f < 1 / 100) =
      (\<exists>f. allele_frequency v = Some f \<and> f < 1 / 100)"
    by (simp split: option.splits)
  then show ?thesis
    by (simp add: cell_filter_rare_wf [OF assms])
qed

text \<open>The scenario of the specification: of the frequencies 0.005 and 0.02 only the first passes.\<close>

theorem VariantFilter_scenario:
  "\<exists>mt'. cell_filter_rare scenario_mt = Inr mt' \<and> rows mt' = [v100]"
proof -
  from VariantFilter_keeps_exactly_rare [OF scenario_wf]
  obtain mt' where "cell_filter_rare scenario_mt = Inr mt'"
    and "rows mt' = filter (\<lambda>v. case allele_frequency v of None \<Rightarrow> False | Some f \<Rightarrow> f < 1 / 100)
                      (rows scenario_mt)"
    by blast
  then show ?thesis
    by (simp add: scenario_mt_def af_v100 af_v500)
qed

text \<open>
  C6, as the code has it. A variant with no observed allele has no allele frequency: the
  filter predicate is missing on it and \<^verbatim>\<open>filter_rows\<close> removes the row. It is not
  treated as frequency 0 and it is not retained.
\<close>

theorem VariantFilter_drops_unobserved:
  assumes "\<forall>u \<in> set (rows mt). wf_variant u"
    and "v \<in> set (rows mt)"
    and "observed_alleles v = []"
  shows "allele_frequency v = None \<and>
         (\<exists>mt'. cell_filter_rare mt = Inr mt' \<and> v \<notin> set (rows mt'))"
  using assms(3) by (simp add: cell_filter_rare_wf [OF assms(1)] allele_frequency_def)

text \<open>At a variant whose 51 calls are all missing:\<close>

theorem VariantFilter_nocall_dropped:
  "allele_frequency v_nocall = None \<and>
   (\<exists>mt'. cell_filter_rare nocall_mt = Inr mt' \<and> v_nocall \<notin> set (rows mt'))"
  using VariantFilter_drops_unobserved [OF nocall_wf _ nocall_unobserved]
  by (simp add: nocall_mt_def)

text \<open>The claim as stated fails there: the variant is in the input and the output is empty.\<close>

theorem VariantFilter_nocall_not_retained:
  "observed_alleles v_nocall = [] \<and>
   v_nocall \<in> set (rows nocall_mt) \<and>
   cell_filter_rare nocall_mt = Inr \<lparr>cols = samples 51, rows = []\<rparr>"
  by code_simp

subsection \<open>IntervalAnnotator\<close>




subsection \<open>GeneAggregator\<close>

text \<open>
  C2. Every gene value of the annotated rows has exactly one row in the aggregated
  matrix, and the \<^verbatim>\<open>n_variants\<close> entry of a (gene, sample) pair is the number of
  variants assigned to that gene at which the sample has a non-missing call with more
  than zero alternate alleles; the same holds for the rows that remain after the
  post-filter.
\<close>

theorem GeneAggregator_counts_carriers:
  "(\<forall>k \<in> gene ` set (rows mt).
      \<exists>!b. b \<in> set (rows (group_rows_by_gene_aggregate mt)) \<and> gene_key b = k) \<and>
   (\<forall>b \<in> set (rows (group_rows_by_gene_aggregate mt)). \<forall>j < length (cols mt).
      n_variants b ! j = carrier_count mt (gene_key b) j) \<and>
   (\<exists>bm. cell_burden mt = Inr bm \<and> cols bm = cols mt \<and>
      (\<forall>b \<in> set (rows bm). \<forall>j < length (cols mt).
         n_variants b ! j = carrier_count mt (gene_key b) j))"
proof -
  have pre: "\<forall>b \<in> set (rows (group_rows_by_gene_aggregate mt)). \<forall>j < length (cols mt).
      n_variants b ! j = carrier_count mt (gene_key b) j"
    using aggregate_row [of _ mt] by (simp add: carrier_count_eq)
  have "cols (group_rows_by_gene_aggregate mt) = cols mt"
    by (simp add: group_rows_by_gene_aggregate_def)
  with pre show ?thesis
    by (simp add: cell_burden_eq aggregate_key_unique)
qed

text \<open>Two genes, one carrier: sample 50 carries the one variant of \<open>GENE_A\<close>.\<close>

theorem GeneAggregator_two_genes:
  "n_variants \<lparr>gene_key = Some ''GENE_A'', n_variants = replicate 50 0 @ [1]\<rparr> ! 50 =
     carrier_count two_gene_mt (Some ''GENE_A'') 50 \<and>
   carrier_count two_gene_mt (Some ''GENE_A'') 50 = 1"
proof -
  let ?b = "\<lparr>gene_key = Some ''GENE_A'', n_variants = replicate 50 0 @ [1]\<rparr>"
  from GeneAggregator_counts_carriers [of two_gene_mt]
  have "\<forall>b \<in> set (rows (group_rows_by_gene_aggregate two_gene_mt)).
          \<forall>j < length (cols two_gene_mt).
            n_variants b ! j = carrier_count two_gene_mt (gene_key b) j"
    by blast
  with two_gene_row two_gene_cols
  have "n_variants ?b ! 50 = carrier_count two_gene_mt (gene_key ?b) 50"
    by blast
  then show ?thesis by (simp add: two_gene_count)
qed

text \<open>
  C3. The burden cell returns, keeps exactly the aggregated rows whose \<^verbatim>\<open>n_variants\<close>
  sum over the samples is positive, and so every row of the final burden matrix has a
  positive sum and every row with sum zero is removed.
\<close>

theorem BurdenMatrix_genes_have_carriers:
  "\<exists>bm. cell_burden mt = Inr bm \<and>
     rows bm = filter (\<lambda>b. 0 < sum_list (n_variants b)) (rows (group_rows_by_gene_aggregate mt)) \<and>
     (\<forall>b \<in> set (rows bm). 0 < sum_list (n_variants b)) \<and>
     (\<forall>b \<in> set (rows (group_rows_by_gene_aggregate mt)).
        sum_list (n_variants b) = 0 \<longrightarrow> b \<notin> set (rows bm))"
  by (simp add: cell_burden_eq)

text \<open>Of \<open>GENE_A\<close> (one carrier) and \<open>GENE_B\<close> (none), only \<open>GENE_A\<close> remains.\<close>

theorem BurdenMatrix_two_genes:
  "\<exists>bm. cell_burden two_gene_mt = Inr bm \<and>
     rows bm = [\<lparr>gene_key = Some ''GENE_A'', n_variants = replicate 50 0 @ [1]\<rparr>] \<and>
     map gene_key (rows (group_rows_by_gene_aggregate two_gene_mt)) =
       [Some ''GENE_A'', Some ''GENE_B'']"
proof -
  have pre: "rows (group_rows_by_gene_aggregate two_gene_mt) =
      [\<lparr>gene_key = Some ''GENE_A'', n_variants = replicate 50 0 @ [1]\<rparr>,
       \<lparr>gene_key = Some ''GENE_B'', n_variants = replicate 51 0\<rparr>]"
    by code_simp
  from BurdenMatrix_genes_have_carriers [of two_gene_mt] obtain bm where
    "cell_burden two_gene_mt = Inr bm" and
    "rows bm = filter (\<lambda>b. 0 < sum_list (n_variants b)) (rows (group_rows_by_gene_aggregate two_gene_mt))"
    by blast
  then show ?thesis by (simp add: pre)
qed




subsection \<open>CovariateBuilder\<close>




subsection \<open>RegressionEngine\<close>




subsection \<open>ResultRanker\<close>




end
